theory Spec2Isabelle
  imports Complex_Main "HOL-Library.Multiset"
begin

section \<open>Finger Counting Fun: the game logic of script.js\<close>

text \<open>
  The script keeps its game state in module-level variables and mutates them from three
  kinds of handler: a click on an answer button (\<open>handleAnswer\<close>), a click on the
  "next" button (\<open>startNewRound\<close>) and the callback of the one-second interval
  started by \<open>startTimer\<close>. The model threads one record through every function.
  Besides the script's own variables the record holds what the handlers read and write
  outside the script: the table of active intervals of the JavaScript runtime, the
  stream of values \<open>Math.random()\<close> will return, and the part of the page that carries
  game information (feedback, score and streak text, the "next" button's \<open>hidden\<close>
  class, the answer buttons with their \<open>disabled\<close> property). Colours, animations
  and the SVG of the hands are not modelled: no handler reads them back.

  Numbers are JavaScript numbers holding integers; they are modelled as \<open>int\<close>.
  \<open>Math.random()\<close> returns a number \<open>r\<close> with \<open>0 \<le> r < 1\<close>; it is modelled as a
  real, and the range is the hypothesis \<open>valid_random\<close> below.
\<close>

subsection \<open>Data\<close>

text \<open>The messages of a configuration object; a missing key is \<open>None\<close>.\<close>

record config =
  correct_message :: "string option"
  wrong_message :: "string option"

definition defaultConfig :: config where
  "defaultConfig = \<lparr>correct_message = Some ''Great job!'', wrong_message = Some ''Try again!''\<rparr>"

text \<open>\<open>a || b\<close> on a string that may be missing: the empty string is falsy too.\<close>

fun js_or :: "string option \<Rightarrow> string option \<Rightarrow> string option" where
  "js_or None b = b"
| "js_or (Some a) b = (if a = [] then b else Some a)"

text \<open>
  An answer button as \<open>renderOptions\<close> builds it: \<open>dataset.number\<close>, \<open>textContent\<close>,
  \<open>disabled\<close>, and the configuration its click listener has captured.
\<close>

record button =
  number :: int
  textContent :: string
  disabled :: bool
  listenerConfig :: config

text \<open>The content of the feedback element, without its markup.\<close>

datatype feedback =
    NoFeedback
  | CorrectFeedback "string option" int
  | WrongFeedback "string option" string
  | TimeUpFeedback string

text \<open>What a call returns or throws.\<close>

datatype js_value = Undefined | JSBool bool | JSNumber int | JSObject "(string \<times> js_value) list"

datatype js_error = TypeError

datatype completion = Returns js_value | Throws js_error

record game =
  currentNumber :: int
  score :: int
  streak :: int
  answered :: bool
  timerInterval :: "nat option"
  timeLeft :: int
  usedNumbers :: "int list"
  intervals :: "nat set"
  nextTimerId :: nat
  randoms :: "nat \<Rightarrow> real"
  randPos :: nat
  feedbackEl :: feedback
  nextBtnHidden :: bool
  scoreText :: "int option"
  streakText :: "int option"
  optionButtons :: "button list"

definition TIMER_DURATION :: int where
  "TIMER_DURATION = 15"

definition numberWords :: "string list" where
  "numberWords = [''one'', ''two'', ''three'', ''four'', ''five'',
                  ''six'', ''seven'', ''eight'', ''nine'', ''ten'']"

text \<open>
  \<open>numberWords[n - 1]\<close>: outside the array the read gives \<open>undefined\<close>, and the
  \<open>.toUpperCase()\<close> that follows every such read in the script throws a TypeError.
\<close>

definition numberWord :: "int \<Rightarrow> string option" where
  "numberWord n = (if 1 \<le> n \<and> n \<le> 10 then Some (numberWords ! nat (n - 1)) else None)"

text \<open>
  \<open>toUpperCase\<close> on the ASCII letters, the only ones in \<open>numberWords\<close>; every
  other character is left as it is.
\<close>

definition upperChar :: "char \<Rightarrow> char" where
  "upperChar c =
     (case map_of (zip ''abcdefghijklmnopqrstuvwxyz'' ''ABCDEFGHIJKLMNOPQRSTUVWXYZ'') c of
        Some u \<Rightarrow> u
      | None \<Rightarrow> c)"

definition toUpperCase :: "string \<Rightarrow> string" where
  "toUpperCase w = map upperChar w"

subsection \<open>Randomness\<close>

definition Math_random :: "game \<Rightarrow> real \<times> game" where
  "Math_random s = (randoms s (randPos s), s\<lparr>randPos := Suc (randPos s)\<rparr>)"

definition Math_floor :: "real \<Rightarrow> int" where
  "Math_floor x = \<lfloor>x\<rfloor>"

definition valid_random :: "game \<Rightarrow> bool" where
  "valid_random s = (\<forall>n. 0 \<le> randoms s n \<and> randoms s n < 1)"

subsection \<open>Answer options\<close>

text \<open>
  The Fisher-Yates loop \<open>for (let i = a.length - 1; i > 0; i--)\<close> with
  \<open>j = Math.floor(Math.random() * (i + 1))\<close> and the swap of \<open>a[i]\<close> and \<open>a[j]\<close>.
  The first argument is \<open>i\<close>.
\<close>

fun fisherYates :: "nat \<Rightarrow> 'a list \<Rightarrow> game \<Rightarrow> 'a list \<times> game" where
  "fisherYates 0 a s = (a, s)"
| "fisherYates (Suc k) a s =
     (let i = Suc k;
          (r, s1) = Math_random s;
          j = nat (Math_floor (r * real (i + 1)))
      in fisherYates k (a[i := a ! j, j := a ! i]) s1)"

text \<open>
  A \<open>Set\<close> of numbers, in insertion order (the order \<open>Array.from\<close> reads it in);
  \<open>add\<close> of a member changes nothing, so a list built by \<open>Set_add\<close> from the
  empty one has no duplicates and its length is the \<open>size\<close> of the set.
\<close>

definition Set_add :: "int \<Rightarrow> int list \<Rightarrow> int list" where
  "Set_add x xs = (if x \<in> set xs then xs else xs @ [x])"

text \<open>
  \<open>for (let i = 0; i < availableNumbers.length && options.size < 4; i++)
  options.add(availableNumbers[i])\<close>, walking down the array.
\<close>

fun addOptions :: "int list \<Rightarrow> int list \<Rightarrow> int list" where
  "addOptions [] options = options"
| "addOptions (n # rest) options =
     (if length options < 4 then addOptions rest (Set_add n options) else options)"

definition generateOptions :: "int \<Rightarrow> game \<Rightarrow> int list \<times> game" where
  "generateOptions correctNum s =
     (let options = [correctNum];
          allNumbers = map (\<lambda>i. int i + 1) [0..<10];
          availableNumbers = filter (\<lambda>n. n \<noteq> correctNum) allNumbers;
          (availableNumbers, s1) = fisherYates (length availableNumbers - 1) availableNumbers s;
          options = addOptions availableNumbers options;
          finalOptions = options
      in fisherYates (length finalOptions - 1) finalOptions s1)"

subsection \<open>Number selection\<close>

text \<open>
  The \<open>do ... while (usedNumbers.has(newNumber))\<close> loop of \<open>generateNewNumber\<close>;
  the first argument is \<open>attempts\<close> at the start of the body.
\<close>

function generateNewNumber_loop :: "nat \<Rightarrow> game \<Rightarrow> int \<times> game" where
  "generateNewNumber_loop attempts s =
     (let (r, s1) = Math_random s;
          newNumber = Math_floor (r * 10) + 1;
          attempts1 = attempts + 1
      in if attempts1 > 20
         then (let s2 = s1\<lparr>usedNumbers := []\<rparr>;
                   (r2, s3) = Math_random s2
               in (Math_floor (r2 * 10) + 1, s3))
         else if newNumber \<in> set (usedNumbers s1)
              then generateNewNumber_loop attempts1 s1
              else (newNumber, s1))"
  by pat_completeness auto
termination
  by (relation "measure (\<lambda>(attempts, s). 21 - attempts)") auto

declare generateNewNumber_loop.simps [simp del]

definition generateNewNumber :: "game \<Rightarrow> int \<times> game" where
  "generateNewNumber s =
     (let s0 = (if length (usedNumbers s) \<ge> 8 then s\<lparr>usedNumbers := []\<rparr> else s);
          (newNumber, s1) = generateNewNumber_loop 0 s0
      in (newNumber, s1\<lparr>usedNumbers := Set_add newNumber (usedNumbers s1)\<rparr>))"

subsection \<open>The countdown\<close>

text \<open>
  The runtime's \<open>setInterval\<close> and \<open>clearInterval\<close>: handles are positive integers,
  never reused, and \<open>intervals\<close> is the set of handles whose callback still fires.
\<close>

definition setInterval :: "game \<Rightarrow> nat \<times> game" where
  "setInterval s =
     (nextTimerId s,
      s\<lparr>intervals := insert (nextTimerId s) (intervals s), nextTimerId := Suc (nextTimerId s)\<rparr>)"

definition clearInterval :: "nat \<Rightarrow> game \<Rightarrow> game" where
  "clearInterval h s = s\<lparr>intervals := intervals s - {h}\<rparr>"

text \<open>\<open>if (timerInterval)\<close>: \<open>null\<close> and \<open>0\<close> are falsy.\<close>

definition stopTimer :: "game \<Rightarrow> game" where
  "stopTimer s =
     (case timerInterval s of
        None \<Rightarrow> s
      | Some h \<Rightarrow> if h \<noteq> 0 then (clearInterval h s)\<lparr>timerInterval := None\<rparr> else s)"

definition startTimer :: "game \<Rightarrow> game" where
  "startTimer s =
     (let s1 = s\<lparr>timeLeft := TIMER_DURATION\<rparr>;
          (h, s2) = setInterval s1
      in s2\<lparr>timerInterval := Some h\<rparr>)"

definition disableButtons :: "game \<Rightarrow> game" where
  "disableButtons s = s\<lparr>optionButtons := map (\<lambda>b. b\<lparr>disabled := True\<rparr>) (optionButtons s)\<rparr>"

definition handleTimeUp :: "game \<Rightarrow> completion \<times> game" where
  "handleTimeUp s =
     (let s1 = s\<lparr>answered := True\<rparr>;
          s2 = s1\<lparr>streak := 0\<rparr>;
          s3 = s2\<lparr>streakText := Some (streak s2)\<rparr>;
          s4 = disableButtons s3
      in case numberWord (currentNumber s4) of
           None \<Rightarrow> (Throws TypeError, s4)
         | Some w \<Rightarrow>
             (Returns Undefined,
              s4\<lparr>feedbackEl := TimeUpFeedback (toUpperCase w), nextBtnHidden := False\<rparr>))"

text \<open>The callback \<open>startTimer\<close> passes to \<open>setInterval\<close>.\<close>

definition timerCallback :: "game \<Rightarrow> completion \<times> game" where
  "timerCallback s =
     (let s1 = s\<lparr>timeLeft := timeLeft s - 1\<rparr>
      in if timeLeft s1 \<le> 0
         then (let s2 = stopTimer s1
               in if \<not> answered s2 then handleTimeUp s2 else (Returns Undefined, s2))
         else (Returns Undefined, s1))"

subsection \<open>Answers\<close>

text \<open>
  \<open>createConfetti\<close> touches the game state only through \<open>Math.random()\<close>: six
  calls for each of its 50 pieces.
\<close>

definition createConfetti :: "game \<Rightarrow> game" where
  "createConfetti s = s\<lparr>randPos := randPos s + 50 * 6\<rparr>"

text \<open>
  \<open>handleAnswer(selectedNum, btn, config)\<close>. The clicked button \<open>btn\<close> is only
  recoloured, so the argument is left out.
\<close>

definition handleAnswer :: "int \<Rightarrow> config \<Rightarrow> game \<Rightarrow> completion \<times> game" where
  "handleAnswer selectedNum cfg s =
     (if answered s then (Returns Undefined, s)
      else
        let s1 = s\<lparr>answered := True\<rparr>;
            s2 = stopTimer s1;
            isCorrect = (selectedNum = currentNumber s2);
            s3 = disableButtons s2
        in if isCorrect
           then
             (let timeBonus = Math_floor (real_of_int (timeLeft s3) * 2);
                  streakBonus = streak s3 * 5;
                  totalPoints = 10 + timeBonus + streakBonus;
                  s4 = s3\<lparr>score := score s3 + totalPoints\<rparr>;
                  s5 = s4\<lparr>streak := streak s4 + 1\<rparr>;
                  s6 = s5\<lparr>scoreText := Some (score s5), streakText := Some (streak s5)\<rparr>;
                  s7 = s6\<lparr>feedbackEl :=
                         CorrectFeedback
                           (js_or (correct_message cfg) (correct_message defaultConfig))
                           totalPoints\<rparr>;
                  s8 = createConfetti s7
              in (Returns Undefined, s8\<lparr>nextBtnHidden := False\<rparr>))
           else
             (let s4 = s3\<lparr>streak := 0\<rparr>;
                  s5 = s4\<lparr>streakText := Some (streak s4)\<rparr>
              in case numberWord (currentNumber s5) of
                   None \<Rightarrow> (Throws TypeError, s5)
                 | Some w \<Rightarrow>
                     (Returns Undefined,
                      s5\<lparr>feedbackEl :=
                            WrongFeedback
                              (js_or (wrong_message cfg) (wrong_message defaultConfig))
                              (toUpperCase w),
                          nextBtnHidden := False\<rparr>)))"

subsection \<open>Rounds\<close>

text \<open>
  The \<open>forEach\<close> of \<open>renderOptions\<close>; the first argument is the index \<open>i\<close>. The
  palette has four entries, so \<open>colors[i].bg\<close> throws from the fifth option on, and
  \<open>numberWords[num - 1].toUpperCase()\<close> throws for a number without a word.
\<close>

fun renderOptions_loop :: "nat \<Rightarrow> int list \<Rightarrow> config \<Rightarrow> game \<Rightarrow> completion \<times> game" where
  "renderOptions_loop i [] cfg s = (Returns Undefined, s)"
| "renderOptions_loop i (num # rest) cfg s =
     (if i \<ge> 4 then (Throws TypeError, s)
      else case numberWord num of
             None \<Rightarrow> (Throws TypeError, s)
           | Some w \<Rightarrow>
               renderOptions_loop (i + 1) rest cfg
                 (s\<lparr>optionButtons := optionButtons s @
                      [\<lparr>number = num, textContent = toUpperCase w,
                        disabled = answered s, listenerConfig = cfg\<rparr>]\<rparr>))"

definition renderOptions :: "int list \<Rightarrow> config \<Rightarrow> game \<Rightarrow> completion \<times> game" where
  "renderOptions options cfg s = renderOptions_loop 0 options cfg (s\<lparr>optionButtons := []\<rparr>)"

definition startNewRound :: "config \<Rightarrow> game \<Rightarrow> completion \<times> game" where
  "startNewRound cfg s =
     (let s1 = s\<lparr>answered := False\<rparr>;
          (n, s2) = generateNewNumber s1;
          s3 = s2\<lparr>currentNumber := n\<rparr>;
          s4 = s3\<lparr>feedbackEl := NoFeedback, nextBtnHidden := True\<rparr>;
          (options, s5) = generateOptions (currentNumber s4) s4
      in case renderOptions options cfg s5 of
           (Throws e, s6) \<Rightarrow> (Throws e, s6)
         | (Returns v, s6) \<Rightarrow> (Returns Undefined, startTimer s6))"

text \<open>
  The module-level initialisers, with the random stream as a parameter and a page on
  which the script has drawn nothing yet.
\<close>

definition initialGame :: "(nat \<Rightarrow> real) \<Rightarrow> game" where
  "initialGame rs =
     \<lparr>currentNumber = 1, score = 0, streak = 0, answered = False, timerInterval = None,
      timeLeft = 15, usedNumbers = [], intervals = {}, nextTimerId = 1,
      randoms = rs, randPos = 0,
      feedbackEl = NoFeedback, nextBtnHidden = True, scoreText = None, streakText = None,
      optionButtons = []\<rparr>"

text \<open>\<open>initializeGame\<close> registers the listeners and starts the first round.\<close>

definition initializeGame :: "config \<Rightarrow> game \<Rightarrow> completion \<times> game" where
  "initializeGame cfg s = startNewRound cfg s"

subsection \<open>Events\<close>

text \<open>
  What the page and the runtime can deliver: a click on the \<open>i\<close>-th answer button
  (a disabled button gets no click), a click on the "next" button (a hidden button
  gets none) with the configuration the listener then reads, and the firing of an
  interval that has not been cleared.
\<close>

datatype event = ClickOption nat | ClickNext config | IntervalFires nat

fun enabled :: "event \<Rightarrow> game \<Rightarrow> bool" where
  "enabled (ClickOption i) s = (i < length (optionButtons s) \<and> \<not> disabled (optionButtons s ! i))"
| "enabled (ClickNext cfg) s = (\<not> nextBtnHidden s)"
| "enabled (IntervalFires h) s = (h \<in> intervals s)"

fun fire :: "event \<Rightarrow> game \<Rightarrow> game" where
  "fire (ClickOption i) s =
     snd (handleAnswer (number (optionButtons s ! i)) (listenerConfig (optionButtons s ! i)) s)"
| "fire (ClickNext cfg) s = snd (startNewRound cfg s)"
| "fire (IntervalFires h) s = snd (timerCallback s)"

inductive reachable :: "game \<Rightarrow> bool" where
  start: "reachable (snd (initializeGame cfg (initialGame rs)))"
| step: "reachable s \<Longrightarrow> enabled e s \<Longrightarrow> reachable (fire e s)"

text \<open>
  Calls of the two resolving handlers with nothing in front of them: any number may be
  submitted, and the callback may run, whatever the page shows.
\<close>

datatype call = SubmitAnswer int config | TimerFires

fun perform :: "call \<Rightarrow> game \<Rightarrow> game" where
  "perform (SubmitAnswer n cfg) s = snd (handleAnswer n cfg s)"
| "perform TimerFires s = snd (timerCallback s)"

fun run :: "call list \<Rightarrow> game \<Rightarrow> game" where
  "run [] s = s"
| "run (c # cs) s = run cs (perform c s)"

text \<open>The number of calls in a run during which \<open>answered\<close> goes from false to true.\<close>

fun resolutions :: "call list \<Rightarrow> game \<Rightarrow> nat" where
  "resolutions [] s = 0"
| "resolutions (c # cs) s =
     (if \<not> answered s \<and> answered (perform c s) then 1 else 0) + resolutions cs (perform c s)"

text \<open>
  The state of the countdown that the handlers maintain: the active intervals are
  exactly the one the handle holds, if any; a handle is never 0; and while the "next"
  button is shown there is no handle.
\<close>

definition timer_inv :: "game \<Rightarrow> bool" where
  "timer_inv s \<longleftrightarrow>
     intervals s = set_option (timerInterval s) \<and> timerInterval s \<noteq> Some 0
     \<and> 0 < nextTimerId s \<and> (\<not> nextBtnHidden s \<longrightarrow> timerInterval s = None)"

subsection \<open>Concrete inputs\<close>

text \<open>A random stream that repeats a finite list of draws.\<close>

definition cycleRandoms :: "real list \<Rightarrow> nat \<Rightarrow> real" where
  "cycleRandoms xs n = xs ! (n mod length xs)"

definition demoRandoms :: "nat \<Rightarrow> real" where
  "demoRandoms = cycleRandoms [3/10, 9/10, 1/10, 6/10, 1/2, 0, 4/5]"

text \<open>
  A round in progress: the fourth round of a game, three correct answers so far, the
  countdown just started.
\<close>

definition roundInProgress :: game where
  "roundInProgress =
     \<lparr>currentNumber = 7, score = 95, streak = 3, answered = False, timerInterval = Some 4,
      timeLeft = 15, usedNumbers = [4, 9, 2, 7], intervals = {4}, nextTimerId = 5,
      randoms = demoRandoms, randPos = 40,
      feedbackEl = NoFeedback, nextBtnHidden = True, scoreText = Some 95, streakText = Some 3,
      optionButtons =
        [\<lparr>number = 7, textContent = ''SEVEN'', disabled = False, listenerConfig = defaultConfig\<rparr>,
         \<lparr>number = 2, textContent = ''TWO'', disabled = False, listenerConfig = defaultConfig\<rparr>,
         \<lparr>number = 3, textContent = ''THREE'', disabled = False, listenerConfig = defaultConfig\<rparr>,
         \<lparr>number = 6, textContent = ''SIX'', disabled = False, listenerConfig = defaultConfig\<rparr>]\<rparr>"

subsection \<open>Facts about the shuffle and the options\<close>

lemma valid_random_Math_random:
  "valid_random s \<Longrightarrow> valid_random (snd (Math_random s))"
  by (simp add: valid_random_def Math_random_def)

lemma randoms_Math_random: "randoms (snd (Math_random s)) = randoms s"
  by (simp add: Math_random_def)

lemma Math_random_range:
  "valid_random s \<Longrightarrow> 0 \<le> fst (Math_random s) \<and> fst (Math_random s) < 1"
  by (simp add: valid_random_def Math_random_def)

lemma random_index_le:
  assumes "0 \<le> r" "r < 1"
  shows "nat (Math_floor (r * real (Suc n))) \<le> n"
proof -
  have "r * real (Suc n) < real (Suc n)"
    using assms by simp
  then have "\<lfloor>r * real (Suc n)\<rfloor> < int (Suc n)"
    by (simp add: floor_less_iff)
  then show ?thesis
    by (simp add: Math_floor_def)
qed

lemma fisherYates_mset:
  "valid_random s \<Longrightarrow> k < length a \<Longrightarrow> mset (fst (fisherYates k a s)) = mset a"
proof (induction k arbitrary: a s)
  case 0
  then show ?case by simp
next
  case (Suc k)
  obtain r s1 where rs: "Math_random s = (r, s1)"
    by (cases "Math_random s")
  let ?j = "nat (Math_floor (r * real (Suc k + 1)))"
  have r: "0 \<le> r" "r < 1"
    using Math_random_range [OF Suc.prems(1)] rs by simp_all
  have j: "?j \<le> Suc k"
    using random_index_le [OF r, of "Suc k"] by simp
  have v: "valid_random s1"
    using valid_random_Math_random [OF Suc.prems(1)] rs by simp
  let ?b = "a[Suc k := a ! ?j, ?j := a ! Suc k]"
  have "mset ?b = mset a"
    using Suc.prems(2) j by (simp add: mset_swap)
  moreover have "mset (fst (fisherYates k ?b s1)) = mset ?b"
    using Suc.IH [OF v, of ?b] Suc.prems(2) by simp
  ultimately show ?case
    by (simp add: rs Let_def)
qed

lemma Math_random_state: "snd (Math_random s) = s\<lparr>randPos := Suc (randPos s)\<rparr>"
  by (simp add: Math_random_def)

lemma fisherYates_state: "snd (fisherYates k a s) = s\<lparr>randPos := randPos s + k\<rparr>"
proof (induction k arbitrary: a s)
  case 0
  then show ?case by simp
next
  case (Suc k)
  show ?case
    by (simp add: Math_random_def Let_def Suc.IH)
qed

lemma allNumbers_eq: "map (\<lambda>i. int i + 1) [0..<10] = [1, 2, 3, 4, 5, 6, 7, 8, 9, 10]"
  by (simp add: upt_rec)

lemma availableNumbers_distinct:
  "distinct (filter (\<lambda>n. n \<noteq> c) (map (\<lambda>i. int i + 1) [0..<10]))"
  by (simp add: allNumbers_eq)

lemma availableNumbers_set:
  "set (filter (\<lambda>n. n \<noteq> c) (map (\<lambda>i. int i + 1) [0..<10])) = {1..10} - {c}"
proof -
  have "set [1, 2, 3, 4, 5, 6, 7, 8, 9, 10 :: int] = {1..10}"
    by auto arith
  then show ?thesis
    unfolding allNumbers_eq by auto
qed

lemma availableNumbers_length:
  "9 \<le> length (filter (\<lambda>n. n \<noteq> c) (map (\<lambda>i. int i + 1) [0..<10]))"
  by (simp add: allNumbers_eq)

lemma addOptions_take:
  "distinct (options @ xs) \<Longrightarrow> addOptions xs options = options @ take (4 - length options) xs"
proof (induction xs arbitrary: options)
  case Nil
  then show ?case by simp
next
  case (Cons n rest)
  show ?case
  proof (cases "length options < 4")
    case True
    have d: "distinct ((options @ [n]) @ rest)"
      using Cons.prems by simp
    have "n \<notin> set options"
      using Cons.prems by auto
    then have "addOptions (n # rest) options = addOptions rest (options @ [n])"
      using True by (simp add: Set_add_def)
    also have "\<dots> = (options @ [n]) @ take (4 - length (options @ [n])) rest"
      by (rule Cons.IH [OF d])
    also have "\<dots> = options @ take (4 - length options) (n # rest)"
      using True by (simp add: take_Cons')
    finally show ?thesis .
  next
    case False
    then show ?thesis by simp
  qed
qed


lemma generateOptions_mset:
  assumes v: "valid_random s"
  shows "\<exists>ws. mset (fst (generateOptions c s)) = mset (c # ws) \<and> length ws = 3 \<and> distinct ws
              \<and> set ws \<subseteq> {1..10} - {c}"
proof -
  let ?av = "filter (\<lambda>n. n \<noteq> c) (map (\<lambda>i. int i + 1) [0..<10])"
  let ?sh = "fst (fisherYates (length ?av - 1) ?av s)"
  let ?s1 = "snd (fisherYates (length ?av - 1) ?av s)"
  let ?ws = "take 3 ?sh"
  have len: "9 \<le> length ?av"
    by (rule availableNumbers_length)
  have m: "mset ?sh = mset ?av"
    using len by (intro fisherYates_mset [OF v]) simp
  have d: "distinct ?sh"
    using m availableNumbers_distinct [of c] by (metis mset_eq_imp_distinct_iff)
  have st: "set ?sh = {1..10} - {c}"
    using m availableNumbers_set [of c] by (metis mset_eq_setD)
  have l: "9 \<le> length ?sh"
    using m len by (metis mset_eq_length)
  have "c \<notin> set ?sh"
    using st by simp
  then have "distinct ([c] @ ?sh)"
    using d by simp
  then have opts: "addOptions ?sh [c] = c # ?ws"
    by (simp add: addOptions_take)
  have v1: "valid_random ?s1"
    using v by (simp add: fisherYates_state valid_random_def)
  have "mset (fst (fisherYates (length (c # ?ws) - 1) (c # ?ws) ?s1)) = mset (c # ?ws)"
    by (intro fisherYates_mset [OF v1]) simp
  moreover have "fst (generateOptions c s) =
      fst (fisherYates (length (addOptions ?sh [c]) - 1) (addOptions ?sh [c]) ?s1)"
    by (simp add: generateOptions_def Let_def split_beta)
  ultimately have "mset (fst (generateOptions c s)) = mset (c # ?ws)"
    by (simp only: opts)
  moreover have "length ?ws = 3"
    using l by simp
  moreover have "distinct ?ws"
    using d by simp
  moreover have "set ?ws \<subseteq> {1..10} - {c}"
    using st set_take_subset [of 3 ?sh] by simp
  ultimately show ?thesis
    by blast
qed


lemma cycleRandoms_range:
  assumes "xs \<noteq> []" "\<forall>x\<in>set xs. 0 \<le> x \<and> x < 1"
  shows "0 \<le> cycleRandoms xs n \<and> cycleRandoms xs n < 1"
proof -
  have "n mod length xs < length xs"
    using assms(1) by simp
  then have "xs ! (n mod length xs) \<in> set xs"
    by (rule nth_mem)
  then show ?thesis
    using assms(2) by (simp add: cycleRandoms_def)
qed

lemma demoRandoms_range: "0 \<le> demoRandoms n \<and> demoRandoms n < 1"
  unfolding demoRandoms_def by (rule cycleRandoms_range) simp_all

lemma valid_random_demoRandoms: "randoms s = demoRandoms \<Longrightarrow> valid_random s"
  by (simp add: valid_random_def demoRandoms_range)

lemma valid_random_initialGame_demo: "valid_random (initialGame demoRandoms)"
  by (rule valid_random_demoRandoms) (simp add: initialGame_def)

subsection \<open>Facts about the handlers\<close>

lemma Math_floor_double: "Math_floor (real_of_int t * 2) = 2 * t"
proof -
  have "real_of_int t * 2 = of_int (2 * t)"
    by simp
  then show ?thesis
    by (simp only: Math_floor_def floor_of_int)
qed

lemmas handler_defs = handleAnswer_def handleTimeUp_def timerCallback_def stopTimer_def
  clearInterval_def disableButtons_def createConfetti_def Math_floor_double Let_def

lemma handleAnswer_answered: "answered s \<Longrightarrow> handleAnswer n cfg s = (Returns Undefined, s)"
  by (simp add: handleAnswer_def)

lemma stopTimer_fields:
  "score (stopTimer s) = score s" "streak (stopTimer s) = streak s"
  "answered (stopTimer s) = answered s" "timeLeft (stopTimer s) = timeLeft s"
  "currentNumber (stopTimer s) = currentNumber s" "feedbackEl (stopTimer s) = feedbackEl s"
  by (simp_all add: stopTimer_def clearInterval_def split: option.splits)

lemma handleAnswer_correct:
  assumes "\<not> answered s" "n = currentNumber s"
  shows "fst (handleAnswer n cfg s) = Returns Undefined"
    and "score (snd (handleAnswer n cfg s)) = score s + (10 + 2 * timeLeft s + 5 * streak s)"
    and "streak (snd (handleAnswer n cfg s)) = streak s + 1"
    and "answered (snd (handleAnswer n cfg s))"
    and "feedbackEl (snd (handleAnswer n cfg s)) =
           CorrectFeedback (js_or (correct_message cfg) (correct_message defaultConfig))
             (10 + 2 * timeLeft s + 5 * streak s)"
  using assms
  by (simp_all add: handleAnswer_def disableButtons_def createConfetti_def Math_floor_double
        Let_def stopTimer_fields)

lemma handleAnswer_incorrect:
  assumes "\<not> answered s" "n \<noteq> currentNumber s"
  shows "score (snd (handleAnswer n cfg s)) = score s"
    and "streak (snd (handleAnswer n cfg s)) = 0"
    and "answered (snd (handleAnswer n cfg s))"
  using assms
  by (simp_all add: handleAnswer_def disableButtons_def Let_def stopTimer_fields
        split: option.splits)

lemma handleTimeUp_fields:
  "score (snd (handleTimeUp s)) = score s" "streak (snd (handleTimeUp s)) = 0"
  "answered (snd (handleTimeUp s))"
  by (simp_all add: handleTimeUp_def disableButtons_def Let_def split: option.splits)

lemma timerCallback_timeout:
  assumes "\<not> answered s" "timeLeft s \<le> 1"
  shows "score (snd (timerCallback s)) = score s"
    and "streak (snd (timerCallback s)) = 0"
    and "answered (snd (timerCallback s))"
  using assms
  by (simp_all add: timerCallback_def Let_def stopTimer_fields handleTimeUp_fields)

lemma timerCallback_answered:
  assumes "answered s"
  shows "score (snd (timerCallback s)) = score s"
    and "streak (snd (timerCallback s)) = streak s"
    and "answered (snd (timerCallback s))"
    and "feedbackEl (snd (timerCallback s)) = feedbackEl s"
  using assms
  by (simp_all add: timerCallback_def Let_def stopTimer_fields)

lemma perform_answered:
  assumes "answered s"
  shows "answered (perform c s)" "score (perform c s) = score s"
    "streak (perform c s) = streak s" "feedbackEl (perform c s) = feedbackEl s"
  using assms by (cases c; simp add: handleAnswer_answered timerCallback_answered)+

lemma run_answered:
  "answered s \<Longrightarrow>
     answered (run cs s) \<and> score (run cs s) = score s \<and> streak (run cs s) = streak s
     \<and> feedbackEl (run cs s) = feedbackEl s \<and> resolutions cs s = 0"
proof (induction cs arbitrary: s)
  case Nil
  then show ?case by simp
next
  case (Cons c cs)
  have a: "answered (perform c s)"
    using Cons.prems by (rule perform_answered)
  show ?case
    using Cons.IH [OF a] Cons.prems by (simp add: perform_answered)
qed

lemma resolutions_unanswered:
  "\<not> answered s \<Longrightarrow> resolutions cs s = (if answered (run cs s) then 1 else 0)"
proof (induction cs arbitrary: s)
  case Nil
  then show ?case by simp
next
  case (Cons c cs)
  show ?case
  proof (cases "answered (perform c s)")
    case True
    then show ?thesis
      using Cons.prems run_answered [OF True, of cs] by simp
  next
    case False
    then show ?thesis
      using Cons.IH [OF False] by simp
  qed
qed

subsection \<open>Facts about the number selector\<close>

lemma sample_range:
  assumes "0 \<le> r" "r < 1"
  shows "1 \<le> Math_floor (r * 10) + 1 \<and> Math_floor (r * 10) + 1 \<le> 10"
proof -
  have "0 \<le> r * 10"
    using assms(1) by simp
  then have lo: "0 \<le> \<lfloor>r * 10\<rfloor>"
    by simp
  have "r * 10 < 10"
    using assms(2) by simp
  then have "\<lfloor>r * 10\<rfloor> < 10"
    by (simp add: floor_less_iff)
  then show ?thesis
    using lo by (simp add: Math_floor_def)
qed

lemma generateNewNumber_loop_spec:
  "valid_random s \<Longrightarrow>
     1 \<le> fst (generateNewNumber_loop a s) \<and> fst (generateNewNumber_loop a s) \<le> 10 \<and>
     (\<exists>p. (snd (generateNewNumber_loop a s) = s\<lparr>randPos := p\<rparr>
            \<and> fst (generateNewNumber_loop a s) \<notin> set (usedNumbers s))
        \<or> (snd (generateNewNumber_loop a s) = s\<lparr>randPos := p, usedNumbers := []\<rparr>
            \<and> (\<forall>k<20 - a. Math_floor (randoms s (randPos s + k) * 10) + 1
                              \<in> set (usedNumbers s))))"
proof (induction a s rule: generateNewNumber_loop.induct)
  case (1 attempts s)
  let ?s1 = "s\<lparr>randPos := Suc (randPos s)\<rparr>"
  let ?n = "Math_floor (randoms s (randPos s) * 10) + 1"
  have r: "\<And>k. 0 \<le> randoms s k \<and> randoms s k < 1"
    using "1.prems" by (simp add: valid_random_def)
  have v1: "valid_random ?s1"
    using "1.prems" by (simp add: valid_random_def)
  show ?case
  proof (cases "attempts + 1 > 20")
    case True
    have e: "generateNewNumber_loop attempts s =
        (Math_floor (randoms s (Suc (randPos s)) * 10) + 1,
         s\<lparr>randPos := Suc (Suc (randPos s)), usedNumbers := []\<rparr>)"
      using True by (simp add: generateNewNumber_loop.simps [of attempts s] Math_random_def)
    show ?thesis
      unfolding e using sample_range [of "randoms s (Suc (randPos s))"] r True
      by auto
  next
    case False
    show ?thesis
    proof (cases "?n \<in> set (usedNumbers s)")
      case True
      have e: "generateNewNumber_loop attempts s = generateNewNumber_loop (attempts + 1) ?s1"
        using True False
        by (simp add: generateNewNumber_loop.simps [of attempts s] Math_random_def)
      have ih: "1 \<le> fst (generateNewNumber_loop (attempts + 1) ?s1)
          \<and> fst (generateNewNumber_loop (attempts + 1) ?s1) \<le> 10
          \<and> (\<exists>p. (snd (generateNewNumber_loop (attempts + 1) ?s1) = ?s1\<lparr>randPos := p\<rparr>
                 \<and> fst (generateNewNumber_loop (attempts + 1) ?s1) \<notin> set (usedNumbers ?s1))
              \<or> (snd (generateNewNumber_loop (attempts + 1) ?s1) = ?s1\<lparr>randPos := p, usedNumbers := []\<rparr>
                 \<and> (\<forall>k<20 - (attempts + 1). Math_floor (randoms ?s1 (randPos ?s1 + k) * 10) + 1
                              \<in> set (usedNumbers ?s1))))"
        using True False v1
        by (intro "1.IH" [of "Math_random s" "randoms s (randPos s)" ?s1 ?n "attempts + 1"])
           (simp_all add: Math_random_def)
      then obtain p where p:
        "(snd (generateNewNumber_loop (attempts + 1) ?s1) = s\<lparr>randPos := p\<rparr>
                 \<and> fst (generateNewNumber_loop (attempts + 1) ?s1) \<notin> set (usedNumbers s))
              \<or> (snd (generateNewNumber_loop (attempts + 1) ?s1) = s\<lparr>randPos := p, usedNumbers := []\<rparr>
                 \<and> (\<forall>k<20 - (attempts + 1). Math_floor (randoms s (Suc (randPos s + k)) * 10) + 1
                              \<in> set (usedNumbers s)))"
        by auto
      have all: "(\<forall>k<20 - (attempts + 1). Math_floor (randoms s (Suc (randPos s + k)) * 10) + 1
                              \<in> set (usedNumbers s))
            \<Longrightarrow> (\<forall>k<20 - attempts. Math_floor (randoms s (randPos s + k) * 10) + 1
                              \<in> set (usedNumbers s))"
      proof (intro allI impI)
        fix k
        assume h: "\<forall>k<20 - (attempts + 1). Math_floor (randoms s (Suc (randPos s + k)) * 10) + 1
                              \<in> set (usedNumbers s)"
          and k: "k < 20 - attempts"
        show "Math_floor (randoms s (randPos s + k) * 10) + 1 \<in> set (usedNumbers s)"
        proof (cases k)
          case 0
          then show ?thesis using True by simp
        next
          case (Suc j)
          then have "j < 20 - (attempts + 1)"
            using k by simp
          then show ?thesis
            using h Suc by simp
        qed
      qed
      show ?thesis
        unfolding e using ih p all by blast
    next
      case notin: False
      have e: "generateNewNumber_loop attempts s = (?n, ?s1)"
        using notin False
        by (simp add: generateNewNumber_loop.simps [of attempts s] Math_random_def)
      show ?thesis
        unfolding e using sample_range [of "randoms s (randPos s)"] r notin
        by auto
    qed
  qed
qed


lemma generateNewNumber_loop_frame:
  "\<exists>p. snd (generateNewNumber_loop a s) = s\<lparr>randPos := p\<rparr>
      \<or> snd (generateNewNumber_loop a s) = s\<lparr>randPos := p, usedNumbers := []\<rparr>"
proof (induction a s rule: generateNewNumber_loop.induct)
  case (1 attempts s)
  let ?s1 = "s\<lparr>randPos := Suc (randPos s)\<rparr>"
  let ?n = "Math_floor (randoms s (randPos s) * 10) + 1"
  show ?case
  proof (cases "attempts + 1 > 20")
    case True
    have e: "snd (generateNewNumber_loop attempts s) =
         s\<lparr>randPos := Suc (Suc (randPos s)), usedNumbers := []\<rparr>"
      using True by (simp add: generateNewNumber_loop.simps [of attempts s] Math_random_def)
    show ?thesis
      unfolding e by (rule exI [of _ "Suc (Suc (randPos s))"]) simp
  next
    case False
    show ?thesis
    proof (cases "?n \<in> set (usedNumbers s)")
      case True
      have e: "generateNewNumber_loop attempts s = generateNewNumber_loop (attempts + 1) ?s1"
        using True False
        by (simp add: generateNewNumber_loop.simps [of attempts s] Math_random_def)
      have "\<exists>p. snd (generateNewNumber_loop (attempts + 1) ?s1) = ?s1\<lparr>randPos := p\<rparr>
              \<or> snd (generateNewNumber_loop (attempts + 1) ?s1)
                   = ?s1\<lparr>randPos := p, usedNumbers := []\<rparr>"
        using True False
        by (intro "1.IH" [of "Math_random s" "randoms s (randPos s)" ?s1 ?n "attempts + 1"])
           (simp_all add: Math_random_def)
      then show ?thesis
        unfolding e by simp
    next
      case notin: False
      have e: "snd (generateNewNumber_loop attempts s) = ?s1"
        using notin False
        by (simp add: generateNewNumber_loop.simps [of attempts s] Math_random_def)
      show ?thesis
        unfolding e by (rule exI [of _ "Suc (randPos s)"]) simp
    qed
  qed
qed

lemma Set_add_length: "length (Set_add x xs) \<le> Suc (length xs)"
  by (simp add: Set_add_def)

lemma generateNewNumber_frame:
  "\<exists>p u. snd (generateNewNumber s) = s\<lparr>randPos := p, usedNumbers := u\<rparr> \<and> length u \<le> 8"
proof -
  let ?s0 = "if length (usedNumbers s) \<ge> 8 then s\<lparr>usedNumbers := []\<rparr> else s"
  let ?r = "generateNewNumber_loop 0 ?s0"
  have g: "snd (generateNewNumber s) = (snd ?r)\<lparr>usedNumbers := Set_add (fst ?r) (usedNumbers (snd ?r))\<rparr>"
    by (simp add: generateNewNumber_def Let_def split_beta)
  have l0: "length (usedNumbers ?s0) \<le> 7"
    by simp
  obtain p where p: "snd ?r = ?s0\<lparr>randPos := p\<rparr> \<or> snd ?r = ?s0\<lparr>randPos := p, usedNumbers := []\<rparr>"
    using generateNewNumber_loop_frame [of 0 ?s0] by blast
  then have l1: "length (usedNumbers (snd ?r)) \<le> 7"
    using l0 by auto
  have l2: "length (Set_add (fst ?r) (usedNumbers (snd ?r))) \<le> 8"
    using Set_add_length [of "fst ?r" "usedNumbers (snd ?r)"] l1 by simp
  have "snd (generateNewNumber s)
          = s\<lparr>randPos := p, usedNumbers := Set_add (fst ?r) (usedNumbers (snd ?r))\<rparr>"
    unfolding g using p by (auto split: if_splits)
  then show ?thesis
    using l2 by blast
qed

lemma generateNewNumber_length: "length (usedNumbers (snd (generateNewNumber s))) \<le> 8"
  using generateNewNumber_frame [of s] by auto

lemma generateNewNumber_iterate_length:
  "length (usedNumbers s) \<le> 8 \<Longrightarrow>
     length (usedNumbers (((\<lambda>s. snd (generateNewNumber s)) ^^ k) s)) \<le> 8"
  by (induction k) (simp_all add: generateNewNumber_length)

lemma generateNewNumber_result:
  assumes "valid_random s"
  shows "1 \<le> fst (generateNewNumber s) \<and> fst (generateNewNumber s) \<le> 10
       \<and> ((usedNumbers (snd (generateNewNumber s)) = usedNumbers s @ [fst (generateNewNumber s)]
             \<and> fst (generateNewNumber s) \<notin> set (usedNumbers s))
          \<or> (usedNumbers (snd (generateNewNumber s)) = [fst (generateNewNumber s)]
             \<and> (8 \<le> length (usedNumbers s)
                 \<or> (\<forall>k<20. Math_floor (randoms s (randPos s + k) * 10) + 1
                              \<in> set (usedNumbers s)))))"
proof -
  let ?s0 = "if length (usedNumbers s) \<ge> 8 then s\<lparr>usedNumbers := []\<rparr> else s"
  let ?r = "generateNewNumber_loop 0 ?s0"
  have g: "generateNewNumber s
             = (fst ?r, (snd ?r)\<lparr>usedNumbers := Set_add (fst ?r) (usedNumbers (snd ?r))\<rparr>)"
    by (simp add: generateNewNumber_def Let_def split_beta)
  have v0: "valid_random ?s0"
    using assms by (simp add: valid_random_def)
  have sp: "1 \<le> fst ?r \<and> fst ?r \<le> 10 \<and>
     (\<exists>p. (snd ?r = ?s0\<lparr>randPos := p\<rparr> \<and> fst ?r \<notin> set (usedNumbers ?s0))
        \<or> (snd ?r = ?s0\<lparr>randPos := p, usedNumbers := []\<rparr>
            \<and> (\<forall>k<20 - 0. Math_floor (randoms ?s0 (randPos ?s0 + k) * 10) + 1
                              \<in> set (usedNumbers ?s0))))"
    by (rule generateNewNumber_loop_spec [OF v0])
  then obtain p where p:
    "(snd ?r = ?s0\<lparr>randPos := p\<rparr> \<and> fst ?r \<notin> set (usedNumbers ?s0))
        \<or> (snd ?r = ?s0\<lparr>randPos := p, usedNumbers := []\<rparr>
            \<and> (\<forall>k<20. Math_floor (randoms ?s0 (randPos ?s0 + k) * 10) + 1
                              \<in> set (usedNumbers ?s0)))"
    by auto
  show ?thesis
  proof (cases "length (usedNumbers s) \<ge> 8")
    case True
    then have "usedNumbers (snd ?r) = []"
      using p by auto
    then show ?thesis
      unfolding g using sp True by (simp add: Set_add_def)
  next
    case False
    from p show ?thesis
    proof
      assume a: "snd ?r = ?s0\<lparr>randPos := p\<rparr> \<and> fst ?r \<notin> set (usedNumbers ?s0)"
      then have "usedNumbers (snd ?r) = usedNumbers s" "fst ?r \<notin> set (usedNumbers s)"
        using False by auto
      then show ?thesis
        unfolding g using sp by (simp add: Set_add_def)
    next
      assume a: "snd ?r = ?s0\<lparr>randPos := p, usedNumbers := []\<rparr>
            \<and> (\<forall>k<20. Math_floor (randoms ?s0 (randPos ?s0 + k) * 10) + 1
                              \<in> set (usedNumbers ?s0))"
      then have "usedNumbers (snd ?r) = []"
        "\<forall>k<20. Math_floor (randoms s (randPos s + k) * 10) + 1 \<in> set (usedNumbers s)"
        using False by auto
      then show ?thesis
        unfolding g using sp by (simp add: Set_add_def)
    qed
  qed
qed

subsection \<open>Facts about rounds and the countdown\<close>

lemma generateNewNumber_fields:
  "intervals (snd (generateNewNumber s)) = intervals s"
  "timerInterval (snd (generateNewNumber s)) = timerInterval s"
  "nextTimerId (snd (generateNewNumber s)) = nextTimerId s"
  "nextBtnHidden (snd (generateNewNumber s)) = nextBtnHidden s"
  "randoms (snd (generateNewNumber s)) = randoms s"
  "answered (snd (generateNewNumber s)) = answered s"
  using generateNewNumber_frame [of s] by auto

lemma generateOptions_fields:
  "intervals (snd (generateOptions c s)) = intervals s"
  "timerInterval (snd (generateOptions c s)) = timerInterval s"
  "nextTimerId (snd (generateOptions c s)) = nextTimerId s"
  "nextBtnHidden (snd (generateOptions c s)) = nextBtnHidden s"
  "randoms (snd (generateOptions c s)) = randoms s"
  "answered (snd (generateOptions c s)) = answered s"
  by (simp_all add: generateOptions_def Let_def split_beta fisherYates_state)

lemma renderOptions_loop_frame:
  "\<exists>bs. snd (renderOptions_loop i opts cfg s) = s\<lparr>optionButtons := bs\<rparr>"
proof (induction opts arbitrary: i s)
  case Nil
  show ?case
    by (rule exI [of _ "optionButtons s"]) simp
next
  case (Cons num rest)
  show ?case
  proof (cases "i \<ge> 4 \<or> numberWord num = None")
    case True
    then have "snd (renderOptions_loop i (num # rest) cfg s) = s"
      by auto
    then show ?thesis
      by (intro exI [of _ "optionButtons s"]) simp
  next
    case False
    then obtain w where w: "numberWord num = Some w"
      by auto
    let ?s1 = "s\<lparr>optionButtons := optionButtons s @
                      [\<lparr>number = num, textContent = toUpperCase w,
                        disabled = answered s, listenerConfig = cfg\<rparr>]\<rparr>"
    obtain bs where "snd (renderOptions_loop (i + 1) rest cfg ?s1) = ?s1\<lparr>optionButtons := bs\<rparr>"
      using Cons.IH [of "i + 1" ?s1] by blast
    then have "snd (renderOptions_loop i (num # rest) cfg s) = s\<lparr>optionButtons := bs\<rparr>"
      using False w by simp
    then show ?thesis
      by blast
  qed
qed

lemma renderOptions_fields:
  "intervals (snd (renderOptions opts cfg s)) = intervals s"
  "timerInterval (snd (renderOptions opts cfg s)) = timerInterval s"
  "nextTimerId (snd (renderOptions opts cfg s)) = nextTimerId s"
  "nextBtnHidden (snd (renderOptions opts cfg s)) = nextBtnHidden s"
  "randoms (snd (renderOptions opts cfg s)) = randoms s"
  "answered (snd (renderOptions opts cfg s)) = answered s"
  using renderOptions_loop_frame [of 0 opts cfg "s\<lparr>optionButtons := []\<rparr>"]
  by (auto simp add: renderOptions_def)

lemma renderOptions_loop_returns:
  "i + length opts \<le> 4 \<Longrightarrow> \<forall>n\<in>set opts. 1 \<le> n \<and> n \<le> 10 \<Longrightarrow>
     fst (renderOptions_loop i opts cfg s) = Returns Undefined"
  by (induction opts arbitrary: i s) (simp_all add: numberWord_def)

lemma startTimer_fields:
  "intervals (startTimer s) = insert (nextTimerId s) (intervals s)"
  "timerInterval (startTimer s) = Some (nextTimerId s)"
  "nextTimerId (startTimer s) = Suc (nextTimerId s)"
  "nextBtnHidden (startTimer s) = nextBtnHidden s"
  "randoms (startTimer s) = randoms s"
  "answered (startTimer s) = answered s"
  by (simp_all add: startTimer_def setInterval_def Let_def)

text \<open>The state in which \<open>startNewRound\<close> calls \<open>renderOptions\<close>, and the options.\<close>

lemma startNewRound_unfold:
  "startNewRound cfg s =
     (let s4 = (snd (generateNewNumber (s\<lparr>answered := False\<rparr>)))
                 \<lparr>currentNumber := fst (generateNewNumber (s\<lparr>answered := False\<rparr>)),
                  feedbackEl := NoFeedback, nextBtnHidden := True\<rparr>;
          r = renderOptions (fst (generateOptions (currentNumber s4) s4)) cfg
                (snd (generateOptions (currentNumber s4) s4))
      in case fst r of
           Throws e \<Rightarrow> (Throws e, snd r)
         | Returns v \<Rightarrow> (Returns Undefined, startTimer (snd r)))"
  by (simp add: startNewRound_def Let_def split_beta split: completion.splits prod.splits)

lemma startNewRound_timer:
  "nextBtnHidden (snd (startNewRound cfg s)) \<and> \<not> answered (snd (startNewRound cfg s))
   \<and> randoms (snd (startNewRound cfg s)) = randoms s
   \<and> ((\<exists>e. fst (startNewRound cfg s) = Throws e)
         \<and> intervals (snd (startNewRound cfg s)) = intervals s
         \<and> timerInterval (snd (startNewRound cfg s)) = timerInterval s
         \<and> nextTimerId (snd (startNewRound cfg s)) = nextTimerId s
       \<or> fst (startNewRound cfg s) = Returns Undefined
         \<and> intervals (snd (startNewRound cfg s)) = insert (nextTimerId s) (intervals s)
         \<and> timerInterval (snd (startNewRound cfg s)) = Some (nextTimerId s)
         \<and> nextTimerId (snd (startNewRound cfg s)) = Suc (nextTimerId s))"
  unfolding startNewRound_unfold Let_def
  by (simp add: startTimer_fields renderOptions_fields generateOptions_fields
        generateNewNumber_fields split: completion.splits)


lemma startNewRound_returns:
  assumes "valid_random s"
  shows "fst (startNewRound cfg s) = Returns Undefined"
proof -
  let ?g = "generateNewNumber (s\<lparr>answered := False\<rparr>)"
  let ?s4 = "(snd ?g)\<lparr>currentNumber := fst ?g, feedbackEl := NoFeedback, nextBtnHidden := True\<rparr>"
  let ?o = "generateOptions (currentNumber ?s4) ?s4"
  have v0: "valid_random (s\<lparr>answered := False\<rparr>)"
    using assms by (simp add: valid_random_def)
  have n: "1 \<le> fst ?g \<and> fst ?g \<le> 10"
    using generateNewNumber_result [OF v0] by blast
  have v4: "valid_random ?s4"
    using assms by (simp add: valid_random_def generateNewNumber_fields)
  obtain ws where m: "mset (fst ?o) = mset (currentNumber ?s4 # ws)"
    and ws: "length ws = 3" "set ws \<subseteq> {1..10} - {currentNumber ?s4}"
    using generateOptions_mset [OF v4, of "currentNumber ?s4"] by blast
  have len: "length (fst ?o) = 4"
    using mset_eq_length [OF m] ws(1) by simp
  have "set (fst ?o) = insert (currentNumber ?s4) (set ws)"
    using mset_eq_setD [OF m] by simp
  then have rng: "\<forall>n\<in>set (fst ?o). 1 \<le> n \<and> n \<le> 10"
    using ws(2) n by auto
  have "fst (renderOptions (fst ?o) cfg (snd ?o)) = Returns Undefined"
    unfolding renderOptions_def
    using len rng by (intro renderOptions_loop_returns) simp_all
  then show ?thesis
    unfolding startNewRound_unfold Let_def by simp
qed

lemma startNewRound_starts_timer:
  assumes "valid_random s"
  shows "intervals (snd (startNewRound cfg s)) = insert (nextTimerId s) (intervals s)"
    and "timerInterval (snd (startNewRound cfg s)) = Some (nextTimerId s)"
    and "nextTimerId (snd (startNewRound cfg s)) = Suc (nextTimerId s)"
  using startNewRound_timer [of cfg s] startNewRound_returns [OF assms, of cfg] by auto

lemma timer_inv_startNewRound:
  assumes "timer_inv s" "timerInterval s = None"
  shows "timer_inv (snd (startNewRound cfg s))"
  using startNewRound_timer [of cfg s] assms by (auto simp add: timer_inv_def)

lemma stopTimer_inv:
  assumes "timer_inv s"
  shows "intervals (stopTimer s) = {}" "timerInterval (stopTimer s) = None"
    "nextTimerId (stopTimer s) = nextTimerId s" "nextBtnHidden (stopTimer s) = nextBtnHidden s"
  using assms
  by (auto simp add: timer_inv_def stopTimer_def clearInterval_def split: option.splits)

lemma handleAnswer_releases:
  assumes "timer_inv s" "\<not> answered s"
  shows "intervals (snd (handleAnswer n cfg s)) = {}"
    and "timerInterval (snd (handleAnswer n cfg s)) = None"
    and "nextTimerId (snd (handleAnswer n cfg s)) = nextTimerId s"
proof -
  have i: "timer_inv (s\<lparr>answered := True\<rparr>)"
    using assms(1) by (simp add: timer_inv_def)
  show "intervals (snd (handleAnswer n cfg s)) = {}"
    and "timerInterval (snd (handleAnswer n cfg s)) = None"
    and "nextTimerId (snd (handleAnswer n cfg s)) = nextTimerId s"
    using assms(2) stopTimer_inv [OF i]
    by (simp_all add: handleAnswer_def disableButtons_def createConfetti_def Let_def
          split: option.splits)
qed

lemma timer_inv_handleAnswer:
  assumes "timer_inv s"
  shows "timer_inv (snd (handleAnswer n cfg s))"
proof (cases "answered s")
  case True
  then show ?thesis
    using assms by (simp add: handleAnswer_answered)
next
  case False
  show ?thesis
    using handleAnswer_releases [OF assms False, of n cfg] assms
    by (simp add: timer_inv_def)
qed

lemma handleTimeUp_fields_timer:
  "intervals (snd (handleTimeUp s)) = intervals s"
  "timerInterval (snd (handleTimeUp s)) = timerInterval s"
  "nextTimerId (snd (handleTimeUp s)) = nextTimerId s"
  by (simp_all add: handleTimeUp_def disableButtons_def Let_def split: option.splits)

lemma timerCallback_releases:
  assumes "timer_inv s" "timeLeft s \<le> 1"
  shows "intervals (snd (timerCallback s)) = {}"
    and "timerInterval (snd (timerCallback s)) = None"
    and "nextTimerId (snd (timerCallback s)) = nextTimerId s"
proof -
  have i: "timer_inv (s\<lparr>timeLeft := timeLeft s - 1\<rparr>)"
    using assms(1) by (simp add: timer_inv_def)
  show "intervals (snd (timerCallback s)) = {}"
    and "timerInterval (snd (timerCallback s)) = None"
    and "nextTimerId (snd (timerCallback s)) = nextTimerId s"
    using assms(2) stopTimer_inv [OF i]
    by (simp_all add: timerCallback_def Let_def handleTimeUp_fields_timer)
qed

lemma timer_inv_timerCallback:
  assumes "timer_inv s"
  shows "timer_inv (snd (timerCallback s))"
proof (cases "timeLeft s \<le> 1")
  case True
  show ?thesis
    using timerCallback_releases [OF assms True] assms
    by (simp add: timer_inv_def)
next
  case False
  then have "snd (timerCallback s) = s\<lparr>timeLeft := timeLeft s - 1\<rparr>"
    by (simp add: timerCallback_def Let_def)
  then show ?thesis
    using assms by (simp add: timer_inv_def)
qed

lemma timer_inv_initialGame: "timer_inv (initialGame rs)"
  by (simp add: timer_inv_def initialGame_def)

lemma reachable_timer_inv: "reachable s \<Longrightarrow> timer_inv s"
proof (induction rule: reachable.induct)
  case (start cfg rs)
  show ?case
    unfolding initializeGame_def
    by (rule timer_inv_startNewRound [OF timer_inv_initialGame]) (simp add: initialGame_def)
next
  case (step s e)
  show ?case
  proof (cases e)
    case (ClickOption i)
    then show ?thesis
      using timer_inv_handleAnswer [OF step.IH] by simp
  next
    case (ClickNext cfg)
    then have "timerInterval s = None"
      using step.hyps(2) step.IH by (simp add: timer_inv_def)
    then show ?thesis
      using timer_inv_startNewRound [OF step.IH] ClickNext by simp
  next
    case (IntervalFires h)
    then show ?thesis
      using timer_inv_timerCallback [OF step.IH] by simp
  qed
qed

lemma timer_inv_card: "timer_inv s \<Longrightarrow> card (intervals s) \<le> 1"
  by (cases "timerInterval s") (simp_all add: timer_inv_def)

lemma valid_random_initializeGame_demo:
  "valid_random (snd (initializeGame cfg (initialGame demoRandoms)))"
  using startNewRound_timer [of cfg "initialGame demoRandoms"]
  by (intro valid_random_demoRandoms) (simp add: initializeGame_def initialGame_def)

subsection \<open>The option generator\<close>

text \<open>
  C2. For a correct number in [1,10] and any draws of \<open>Math.random()\<close> in [0,1),
  \<open>generateOptions\<close> returns exactly four pairwise distinct integers, the correct
  number is one of them, every one lies in [1,10], and the other three are three
  different members of [1,10] without the correct number.
\<close>

theorem generateOptions_four_distinct_in_range:
  assumes "valid_random s" "1 \<le> correct" "correct \<le> 10"
  shows "length (fst (generateOptions correct s)) = 4
       \<and> distinct (fst (generateOptions correct s))
       \<and> correct \<in> set (fst (generateOptions correct s))
       \<and> set (fst (generateOptions correct s)) \<subseteq> {1..10}
       \<and> set (fst (generateOptions correct s)) - {correct} \<subseteq> {1..10} - {correct}
       \<and> card (set (fst (generateOptions correct s)) - {correct}) = 3"
proof -
  obtain ws where m: "mset (fst (generateOptions correct s)) = mset (correct # ws)"
    and ws: "length ws = 3" "distinct ws" "set ws \<subseteq> {1..10} - {correct}"
    using generateOptions_mset [OF assms(1), of correct] by blast
  have len: "length (fst (generateOptions correct s)) = 4"
    using mset_eq_length [OF m] ws(1) by simp
  have st: "set (fst (generateOptions correct s)) = insert correct (set ws)"
    using mset_eq_setD [OF m] by simp
  have "distinct (correct # ws)"
    using ws by auto
  then have d: "distinct (fst (generateOptions correct s))"
    using mset_eq_imp_distinct_iff [OF m] by simp
  have diff: "set (fst (generateOptions correct s)) - {correct} = set ws"
    using st ws(3) by auto
  have "card (set ws) = 3"
    using ws(1,2) by (simp add: distinct_card)
  then show ?thesis
    using len d st diff ws(3) assms(2,3) by auto
qed

theorem generateOptions_four_distinct_in_range_witness:
  "valid_random (initialGame demoRandoms) \<and> (1::int) \<le> 3 \<and> (3::int) \<le> 10
   \<and> length (fst (generateOptions 3 (initialGame demoRandoms))) = 4
   \<and> distinct (fst (generateOptions 3 (initialGame demoRandoms)))
   \<and> 3 \<in> set (fst (generateOptions 3 (initialGame demoRandoms)))
   \<and> set (fst (generateOptions 3 (initialGame demoRandoms))) \<subseteq> {1..10}
   \<and> card (set (fst (generateOptions 3 (initialGame demoRandoms))) - {3}) = 3"
proof -
  have v: "valid_random (initialGame demoRandoms)"
    by (rule valid_random_initialGame_demo)
  show ?thesis
    using generateOptions_four_distinct_in_range [OF v, of 3] v by simp
qed

text \<open>
  C10. \<open>generateOptions\<close> has no failing path and no precondition on its argument:
  for every integer, also one outside [1,10], it returns four pairwise distinct
  values, the argument among them, and all the others in [1,10]. So all four lie in
  [1,10] exactly when the argument does.
\<close>

theorem generateOptions_total:
  assumes "valid_random s"
  shows "length (fst (generateOptions correct s)) = 4
       \<and> distinct (fst (generateOptions correct s))
       \<and> correct \<in> set (fst (generateOptions correct s))
       \<and> (\<forall>n \<in> set (fst (generateOptions correct s)). n \<noteq> correct \<longrightarrow> 1 \<le> n \<and> n \<le> 10)
       \<and> ((\<forall>n \<in> set (fst (generateOptions correct s)). 1 \<le> n \<and> n \<le> 10)
            \<longleftrightarrow> (1 \<le> correct \<and> correct \<le> 10))"
proof -
  obtain ws where m: "mset (fst (generateOptions correct s)) = mset (correct # ws)"
    and ws: "length ws = 3" "distinct ws" "set ws \<subseteq> {1..10} - {correct}"
    using generateOptions_mset [OF assms, of correct] by blast
  have len: "length (fst (generateOptions correct s)) = 4"
    using mset_eq_length [OF m] ws(1) by simp
  have st: "set (fst (generateOptions correct s)) = insert correct (set ws)"
    using mset_eq_setD [OF m] by simp
  have "distinct (correct # ws)"
    using ws by auto
  then have d: "distinct (fst (generateOptions correct s))"
    using mset_eq_imp_distinct_iff [OF m] by simp
  have others: "\<forall>n \<in> set ws. 1 \<le> n \<and> n \<le> 10"
    using ws(3) by auto
  show ?thesis
    using len d st others by auto
qed

theorem generateOptions_total_witness:
  "valid_random (initialGame demoRandoms)
   \<and> length (fst (generateOptions 11 (initialGame demoRandoms))) = 4
   \<and> distinct (fst (generateOptions 11 (initialGame demoRandoms)))
   \<and> 11 \<in> set (fst (generateOptions 11 (initialGame demoRandoms)))
   \<and> \<not> (\<forall>n \<in> set (fst (generateOptions 11 (initialGame demoRandoms))). 1 \<le> n \<and> n \<le> 10)"
proof -
  have v: "valid_random (initialGame demoRandoms)"
    by (rule valid_random_initialGame_demo)
  show ?thesis
    using generateOptions_total [OF v, of 11] v by simp
qed

subsection \<open>One resolution per round\<close>

text \<open>
  C3. Once \<open>answered\<close> is true, a further \<open>handleAnswer\<close> changes nothing at all,
  and a further firing of the countdown callback leaves the score, the streak, the
  \<open>answered\<close> flag and the feedback (so the points shown) as they are; the same
  holds after any sequence of such calls. Within a round, that is along any sequence
  of answer submissions and callback firings without a new round in between, the flag
  goes from false to true at most once, and exactly once when the round ends resolved.
\<close>

theorem resolution_at_most_once:
  "(answered s \<longrightarrow>
      handleAnswer n cfg s = (Returns Undefined, s)
      \<and> score (snd (timerCallback s)) = score s
      \<and> streak (snd (timerCallback s)) = streak s
      \<and> answered (snd (timerCallback s))
      \<and> feedbackEl (snd (timerCallback s)) = feedbackEl s
      \<and> score (run cs s) = score s \<and> streak (run cs s) = streak s
      \<and> answered (run cs s) \<and> feedbackEl (run cs s) = feedbackEl s
      \<and> resolutions cs s = 0)
   \<and> (\<not> answered s \<longrightarrow> resolutions cs s = (if answered (run cs s) then 1 else 0))
   \<and> resolutions cs s \<le> 1"
proof (cases "answered s")
  case True
  then show ?thesis
    using run_answered [OF True, of cs]
    by (simp add: handleAnswer_answered timerCallback_answered)
next
  case False
  then show ?thesis
    using resolutions_unanswered [OF False, of cs] by simp
qed

theorem resolution_at_most_once_witness:
  "answered (snd (handleAnswer 7 defaultConfig roundInProgress))
   \<and> handleAnswer 2 defaultConfig (snd (handleAnswer 7 defaultConfig roundInProgress))
       = (Returns Undefined, snd (handleAnswer 7 defaultConfig roundInProgress))
   \<and> score (snd (timerCallback (snd (handleAnswer 7 defaultConfig roundInProgress)))) = 150
   \<and> \<not> answered roundInProgress
   \<and> answered (run [SubmitAnswer 7 defaultConfig, TimerFires, SubmitAnswer 7 defaultConfig]
                  roundInProgress)
   \<and> resolutions [SubmitAnswer 7 defaultConfig, TimerFires, SubmitAnswer 7 defaultConfig]
        roundInProgress = 1"
proof -
  have a: "answered (snd (handleAnswer 7 defaultConfig roundInProgress))"
    by (simp add: handleAnswer_correct roundInProgress_def)
  have sc: "score (snd (handleAnswer 7 defaultConfig roundInProgress)) = 150"
    by (simp add: handleAnswer_correct roundInProgress_def)
  have u: "\<not> answered roundInProgress"
    by (simp add: roundInProgress_def)
  have r: "answered (run [SubmitAnswer 7 defaultConfig, TimerFires, SubmitAnswer 7 defaultConfig]
                  roundInProgress)"
    using run_answered [OF a, of "[TimerFires, SubmitAnswer 7 defaultConfig]"] by simp
  show ?thesis
    using resolution_at_most_once
            [of "snd (handleAnswer 7 defaultConfig roundInProgress)" 2 defaultConfig "[]"]
          resolution_at_most_once
            [of roundInProgress 2 defaultConfig
                "[SubmitAnswer 7 defaultConfig, TimerFires, SubmitAnswer 7 defaultConfig]"]
          a sc u r
    by simp
qed

subsection \<open>Scoring\<close>

text \<open>
  C1. A correct answer on an unresolved round, with \<open>timeLeft = t\<close> and streak \<open>s\<close>
  before the call, awards \<open>10 + floor(t * 2) + s * 5\<close> points: that number is shown
  in the feedback, the score grows by exactly it, and the streak becomes \<open>s + 1\<close>.
  This holds for every integer \<open>t\<close>, so for \<open>0 \<le> t \<le> 15\<close>; with \<open>t = 15\<close> the
  points are 40 at streak 0 and 55 at streak 3.
\<close>

theorem handleAnswer_correct_scoring:
  assumes "\<not> answered s" "selectedNum = currentNumber s"
  shows "fst (handleAnswer selectedNum cfg s) = Returns Undefined
       \<and> feedbackEl (snd (handleAnswer selectedNum cfg s)) =
           CorrectFeedback (js_or (correct_message cfg) (correct_message defaultConfig))
             (10 + Math_floor (real_of_int (timeLeft s) * 2) + streak s * 5)
       \<and> score (snd (handleAnswer selectedNum cfg s)) =
           score s + (10 + Math_floor (real_of_int (timeLeft s) * 2) + streak s * 5)
       \<and> streak (snd (handleAnswer selectedNum cfg s)) = streak s + 1
       \<and> (timeLeft s = 15 \<and> streak s = 0 \<longrightarrow>
            10 + Math_floor (real_of_int (timeLeft s) * 2) + streak s * 5 = 40)
       \<and> (timeLeft s = 15 \<and> streak s = 3 \<longrightarrow>
            10 + Math_floor (real_of_int (timeLeft s) * 2) + streak s * 5 = 55)"
proof -
  have p: "10 + Math_floor (real_of_int (timeLeft s) * 2) + streak s * 5
             = 10 + 2 * timeLeft s + 5 * streak s"
    by (simp add: Math_floor_double)
  show ?thesis
    unfolding p using handleAnswer_correct [OF assms, of cfg] by auto
qed

theorem handleAnswer_correct_scoring_witness:
  "\<not> answered roundInProgress \<and> 7 = currentNumber roundInProgress
   \<and> timeLeft roundInProgress = 15 \<and> streak roundInProgress = 3
   \<and> score roundInProgress = 95
   \<and> feedbackEl (snd (handleAnswer 7 defaultConfig roundInProgress)) =
        CorrectFeedback (Some ''Great job!'') 55
   \<and> score (snd (handleAnswer 7 defaultConfig roundInProgress)) = 150
   \<and> streak (snd (handleAnswer 7 defaultConfig roundInProgress)) = 4"
proof -
  have h: "\<not> answered roundInProgress" "7 = currentNumber roundInProgress"
    by (simp_all add: roundInProgress_def)
  have v: "timeLeft roundInProgress = 15" "streak roundInProgress = 3"
    "score roundInProgress = 95"
    by (simp_all add: roundInProgress_def)
  show ?thesis
    using handleAnswer_correct_scoring [OF h, of defaultConfig] h v
    by (simp add: defaultConfig_def)
qed

text \<open>
  C4. When an unresolved round is resolved by an incorrect answer, or by the countdown
  callback reaching zero (\<open>timeLeft \<le> 1\<close> before the decrement), the round
  becomes answered, the streak is 0 and the score is what it was. \<open>handleTimeUp\<close>
  itself does so on every state.
\<close>

theorem miss_resets_streak_keeps_score:
  "(\<not> answered s \<and> selectedNum \<noteq> currentNumber s \<longrightarrow>
      answered (snd (handleAnswer selectedNum cfg s))
      \<and> streak (snd (handleAnswer selectedNum cfg s)) = 0
      \<and> score (snd (handleAnswer selectedNum cfg s)) = score s)
   \<and> (\<not> answered s \<and> timeLeft s \<le> 1 \<longrightarrow>
      answered (snd (timerCallback s))
      \<and> streak (snd (timerCallback s)) = 0
      \<and> score (snd (timerCallback s)) = score s)
   \<and> answered (snd (handleTimeUp s))
   \<and> streak (snd (handleTimeUp s)) = 0
   \<and> score (snd (handleTimeUp s)) = score s"
  by (simp add: handleAnswer_incorrect timerCallback_timeout handleTimeUp_fields)

theorem miss_resets_streak_keeps_score_witness:
  "\<not> answered roundInProgress \<and> 2 \<noteq> currentNumber roundInProgress
   \<and> streak roundInProgress = 3 \<and> score roundInProgress = 95
   \<and> streak (snd (handleAnswer 2 defaultConfig roundInProgress)) = 0
   \<and> score (snd (handleAnswer 2 defaultConfig roundInProgress)) = 95
   \<and> \<not> answered (roundInProgress\<lparr>timeLeft := 1\<rparr>) \<and> timeLeft (roundInProgress\<lparr>timeLeft := 1\<rparr>) \<le> 1
   \<and> answered (snd (timerCallback (roundInProgress\<lparr>timeLeft := 1\<rparr>)))
   \<and> streak (snd (timerCallback (roundInProgress\<lparr>timeLeft := 1\<rparr>))) = 0
   \<and> score (snd (timerCallback (roundInProgress\<lparr>timeLeft := 1\<rparr>))) = 95"
proof -
  have h: "\<not> answered roundInProgress" "2 \<noteq> currentNumber roundInProgress"
    "streak roundInProgress = 3" "score roundInProgress = 95"
    by (simp_all add: roundInProgress_def)
  show ?thesis
    using miss_resets_streak_keeps_score [of roundInProgress 2 defaultConfig]
          miss_resets_streak_keeps_score [of "roundInProgress\<lparr>timeLeft := 1\<rparr>" 2 defaultConfig]
          h
    by simp
qed

subsection \<open>Stopping the countdown\<close>

text \<open>
  C9. \<open>stopTimer\<close> is idempotent: with no handle (\<open>timerInterval\<close> is
  \<open>null\<close>) it changes nothing, and calling it twice gives the state that calling
  it once gives.
\<close>

theorem stopTimer_idempotent:
  "(timerInterval s = None \<longrightarrow> stopTimer s = s) \<and> stopTimer (stopTimer s) = stopTimer s"
  by (simp add: stopTimer_def clearInterval_def split: option.splits)

theorem stopTimer_idempotent_witness:
  "timerInterval (initialGame demoRandoms) = None
   \<and> stopTimer (initialGame demoRandoms) = initialGame demoRandoms
   \<and> stopTimer roundInProgress = roundInProgress\<lparr>intervals := {}, timerInterval := None\<rparr>
   \<and> stopTimer (stopTimer roundInProgress) = roundInProgress\<lparr>intervals := {}, timerInterval := None\<rparr>"
proof -
  have n: "timerInterval (initialGame demoRandoms) = None"
    by (simp add: initialGame_def)
  have e: "stopTimer roundInProgress = roundInProgress\<lparr>intervals := {}, timerInterval := None\<rparr>"
    by (simp add: stopTimer_def clearInterval_def roundInProgress_def)
  show ?thesis
    using stopTimer_idempotent [of "initialGame demoRandoms"]
          stopTimer_idempotent [of roundInProgress] n e
    by simp
qed

subsection \<open>Answers outside the range\<close>

text \<open>
  \<open>handleAnswer\<close> does not look at the range of its argument. In the round in
  progress (number 7, streak 3) the answer 11 returns normally and is taken for a miss:
  the round is resolved, the countdown stopped, the streak reset to 0, the wrong-answer
  feedback shown.
\<close>

theorem handleAnswer_eleven_is_a_miss:
  "handleAnswer 11 defaultConfig roundInProgress =
    (Returns Undefined,
     roundInProgress\<lparr>answered := True, timerInterval := None, intervals := {},
       streak := 0, streakText := Some 0,
       feedbackEl := WrongFeedback (Some ''Try again!'') ''SEVEN'',
       nextBtnHidden := False,
       optionButtons := map (\<lambda>b. b\<lparr>disabled := True\<rparr>) (optionButtons roundInProgress)\<rparr>)"
  by (simp add: handler_defs roundInProgress_def defaultConfig_def numberWord_def
        numberWords_def toUpperCase_def upperChar_def)

text \<open>
  C6, as the code has it. An answer outside [1,10] is never rejected: with the current
  number in [1,10], on an answered round the call is a no-op like any other, and on an
  unresolved round it returns normally and is processed as an ordinary incorrect
  answer (the very state and result that any other incorrect number gives): round
  resolved, streak 0, score unchanged, wrong-answer feedback.
\<close>

theorem handleAnswer_out_of_range:
  assumes "selectedNum < 1 \<or> 10 < selectedNum"
    and "1 \<le> currentNumber s" "currentNumber s \<le> 10"
  shows "(answered s \<longrightarrow> handleAnswer selectedNum cfg s = (Returns Undefined, s))
       \<and> (\<not> answered s \<longrightarrow>
            fst (handleAnswer selectedNum cfg s) = Returns Undefined
            \<and> answered (snd (handleAnswer selectedNum cfg s))
            \<and> streak (snd (handleAnswer selectedNum cfg s)) = 0
            \<and> score (snd (handleAnswer selectedNum cfg s)) = score s
            \<and> feedbackEl (snd (handleAnswer selectedNum cfg s)) =
                WrongFeedback (js_or (wrong_message cfg) (wrong_message defaultConfig))
                  (toUpperCase (numberWords ! nat (currentNumber s - 1)))
            \<and> (\<forall>m. m \<noteq> currentNumber s \<longrightarrow>
                  handleAnswer selectedNum cfg s = handleAnswer m cfg s))"
proof -
  have ne: "selectedNum \<noteq> currentNumber s"
    using assms by auto
  show ?thesis
    using ne assms(2,3)
    by (simp add: handleAnswer_def disableButtons_def Let_def stopTimer_fields numberWord_def)
qed

theorem handleAnswer_out_of_range_witness:
  "((11::int) < 1 \<or> (10::int) < 11)
   \<and> 1 \<le> currentNumber roundInProgress \<and> currentNumber roundInProgress \<le> 10
   \<and> \<not> answered roundInProgress
   \<and> fst (handleAnswer 11 defaultConfig roundInProgress) = Returns Undefined
   \<and> streak (snd (handleAnswer 11 defaultConfig roundInProgress)) = 0
   \<and> score (snd (handleAnswer 11 defaultConfig roundInProgress)) = 95
   \<and> handleAnswer 11 defaultConfig roundInProgress = handleAnswer 2 defaultConfig roundInProgress"
proof -
  have h: "(11::int) < 1 \<or> (10::int) < 11"
    "1 \<le> currentNumber roundInProgress" "currentNumber roundInProgress \<le> 10"
    by (simp_all add: roundInProgress_def)
  have u: "\<not> answered roundInProgress" "score roundInProgress = 95"
    "2 \<noteq> currentNumber roundInProgress"
    by (simp_all add: roundInProgress_def)
  show ?thesis
    using handleAnswer_out_of_range [OF h, of defaultConfig] h u by simp
qed

subsection \<open>What an answer returns\<close>

text \<open>
  \<open>handleAnswer\<close> has no \<open>return\<close> with a value. In the round in progress the
  correct answer 7 returns \<open>undefined\<close>; the outcome is in the state and on the page.
\<close>

theorem handleAnswer_returns_nothing:
  "handleAnswer 7 defaultConfig roundInProgress =
    (Returns Undefined,
     roundInProgress\<lparr>answered := True, timerInterval := None, intervals := {},
       score := 150, streak := 4, scoreText := Some 150, streakText := Some 4,
       feedbackEl := CorrectFeedback (Some ''Great job!'') 55, randPos := 340,
       nextBtnHidden := False,
       optionButtons := map (\<lambda>b. b\<lparr>disabled := True\<rparr>) (optionButtons roundInProgress)\<rparr>)"
  by (simp add: handler_defs Math_floor_def roundInProgress_def defaultConfig_def)

text \<open>
  C7, as the code has it. \<open>handleAnswer\<close> returns \<open>undefined\<close> whenever it
  returns, and on an answered round it is a no-op. On an unresolved round the outcome
  is written to the feedback element instead of being returned: for the current number,
  the correct-answer message with the points awarded; for any other number (the current
  number being in [1,10]), the wrong-answer message with the word of the current number.
\<close>

theorem handleAnswer_outcome_on_page:
  "(answered s \<longrightarrow> handleAnswer selectedNum cfg s = (Returns Undefined, s))
   \<and> (\<forall>v. fst (handleAnswer selectedNum cfg s) = Returns v \<longrightarrow> v = Undefined)
   \<and> (\<not> answered s \<and> selectedNum = currentNumber s \<longrightarrow>
        fst (handleAnswer selectedNum cfg s) = Returns Undefined
        \<and> feedbackEl (snd (handleAnswer selectedNum cfg s)) =
            CorrectFeedback (js_or (correct_message cfg) (correct_message defaultConfig))
              (10 + Math_floor (real_of_int (timeLeft s) * 2) + streak s * 5))
   \<and> (\<not> answered s \<and> selectedNum \<noteq> currentNumber s
        \<and> 1 \<le> currentNumber s \<and> currentNumber s \<le> 10 \<longrightarrow>
        fst (handleAnswer selectedNum cfg s) = Returns Undefined
        \<and> feedbackEl (snd (handleAnswer selectedNum cfg s)) =
            WrongFeedback (js_or (wrong_message cfg) (wrong_message defaultConfig))
              (toUpperCase (numberWords ! nat (currentNumber s - 1))))"
  by (simp add: handleAnswer_def disableButtons_def createConfetti_def Let_def stopTimer_fields
        numberWord_def split: option.splits)

theorem handleAnswer_outcome_on_page_witness:
  "\<not> answered roundInProgress \<and> 7 = currentNumber roundInProgress
   \<and> fst (handleAnswer 7 defaultConfig roundInProgress) = Returns Undefined
   \<and> feedbackEl (snd (handleAnswer 7 defaultConfig roundInProgress)) =
        CorrectFeedback (Some ''Great job!'') 55
   \<and> 2 \<noteq> currentNumber roundInProgress
   \<and> feedbackEl (snd (handleAnswer 2 defaultConfig roundInProgress)) =
        WrongFeedback (Some ''Try again!'') ''SEVEN''"
proof -
  have h: "\<not> answered roundInProgress" "7 = currentNumber roundInProgress"
    "2 \<noteq> currentNumber roundInProgress"
    "1 \<le> currentNumber roundInProgress" "currentNumber roundInProgress \<le> 10"
    "timeLeft roundInProgress = 15" "streak roundInProgress = 3"
    by (simp_all add: roundInProgress_def)
  have w: "toUpperCase (numberWords ! nat (currentNumber roundInProgress - 1)) = ''SEVEN''"
    by (simp add: roundInProgress_def numberWords_def toUpperCase_def upperChar_def)
  show ?thesis
    using handleAnswer_outcome_on_page [of roundInProgress 7 defaultConfig]
          handleAnswer_outcome_on_page [of roundInProgress 2 defaultConfig] h w
    by (simp add: defaultConfig_def Math_floor_def)
qed

subsection \<open>The number selector\<close>

text \<open>
  C5. With the draws of \<open>Math.random()\<close> in [0,1), every call of
  \<open>generateNewNumber\<close> returns an integer in [1,10]. The number is not in the window
  of used numbers as it stood at entry, and the window afterwards is the old one with
  the number appended, unless the window was cleared during the call; then the window
  afterwards holds the number alone, and either the window had 8 or more members at
  entry or the first 20 samples of the call were all in it. The returned number is in
  the window afterwards, the window has at most 8 members after every call, and so
  after any number of calls in a row from a window of at most 8.
\<close>

theorem generateNewNumber_avoids_recent:
  assumes "valid_random s"
  shows "1 \<le> fst (generateNewNumber s) \<and> fst (generateNewNumber s) \<le> 10
       \<and> (fst (generateNewNumber s) \<notin> set (usedNumbers s)
           \<or> 8 \<le> length (usedNumbers s)
           \<or> (\<forall>k<20. Math_floor (randoms s (randPos s + k) * 10) + 1 \<in> set (usedNumbers s)))
       \<and> (usedNumbers (snd (generateNewNumber s)) = usedNumbers s @ [fst (generateNewNumber s)]
           \<or> usedNumbers (snd (generateNewNumber s)) = [fst (generateNewNumber s)]
              \<and> (8 \<le> length (usedNumbers s)
                  \<or> (\<forall>k<20. Math_floor (randoms s (randPos s + k) * 10) + 1
                               \<in> set (usedNumbers s))))
       \<and> fst (generateNewNumber s) \<in> set (usedNumbers (snd (generateNewNumber s)))
       \<and> length (usedNumbers (snd (generateNewNumber s))) \<le> 8
       \<and> (length (usedNumbers s) \<le> 8 \<longrightarrow>
            (\<forall>k. length (usedNumbers (((\<lambda>s. snd (generateNewNumber s)) ^^ k) s)) \<le> 8))"
proof -
  have m: "fst (generateNewNumber s) \<in> set (usedNumbers (snd (generateNewNumber s)))"
    using generateNewNumber_result [OF assms] by auto
  show ?thesis
    using generateNewNumber_result [OF assms] m generateNewNumber_length [of s]
      generateNewNumber_iterate_length [of s]
    by blast
qed

theorem generateNewNumber_avoids_recent_witness:
  "valid_random roundInProgress
   \<and> usedNumbers roundInProgress = [4, 9, 2, 7]
   \<and> generateNewNumber roundInProgress =
       (1, roundInProgress\<lparr>randPos := 41, usedNumbers := [4, 9, 2, 7, 1]\<rparr>)
   \<and> 1 \<le> fst (generateNewNumber roundInProgress)
   \<and> fst (generateNewNumber roundInProgress) \<le> 10
   \<and> fst (generateNewNumber roundInProgress) \<notin> set (usedNumbers roundInProgress)
   \<and> length (usedNumbers (snd (generateNewNumber roundInProgress))) \<le> 8"
proof -
  have v: "valid_random roundInProgress"
    by (rule valid_random_demoRandoms) (simp add: roundInProgress_def)
  have u: "usedNumbers roundInProgress = [4, 9, 2, 7]"
    by (simp add: roundInProgress_def)
  have e: "generateNewNumber roundInProgress =
       (1, roundInProgress\<lparr>randPos := 41, usedNumbers := [4, 9, 2, 7, 1]\<rparr>)"
    by (simp add: generateNewNumber_def generateNewNumber_loop.simps [of 0] roundInProgress_def
         Math_random_def Math_floor_def demoRandoms_def cycleRandoms_def Set_add_def)
  show ?thesis
    using generateNewNumber_avoids_recent [OF v] v u e by simp
qed

subsection \<open>Countdown intervals\<close>

text \<open>
  \<open>startNewRound\<close> does not stop a running countdown: \<open>startTimer\<close> overwrites
  the handle with a new interval. Called in the state the page is in right after
  loading (interval 1 running), it leaves intervals 1 and 2 both active, the handle
  holding 2, and \<open>stopTimer\<close> then clears only interval 2.
\<close>

theorem startNewRound_keeps_old_interval:
  "intervals (snd (initializeGame defaultConfig (initialGame demoRandoms))) = {1}
   \<and> intervals (snd (startNewRound defaultConfig
                       (snd (initializeGame defaultConfig (initialGame demoRandoms))))) = {1, 2}
   \<and> timerInterval (snd (startNewRound defaultConfig
                       (snd (initializeGame defaultConfig (initialGame demoRandoms))))) = Some 2
   \<and> intervals (stopTimer (snd (startNewRound defaultConfig
                       (snd (initializeGame defaultConfig (initialGame demoRandoms)))))) = {1}"
proof -
  let ?s1 = "snd (initializeGame defaultConfig (initialGame demoRandoms))"
  let ?s2 = "snd (startNewRound defaultConfig ?s1)"
  have a: "intervals ?s1 = {1}" "nextTimerId ?s1 = 2"
    using startNewRound_starts_timer [OF valid_random_initialGame_demo, of defaultConfig]
    by (simp_all add: initializeGame_def initialGame_def)
  have b: "intervals ?s2 = {1, 2}" "timerInterval ?s2 = Some 2"
    using startNewRound_starts_timer [OF valid_random_initializeGame_demo, of defaultConfig defaultConfig] a
    by auto
  have c: "intervals (stopTimer ?s2) = {1}"
    using b by (auto simp add: stopTimer_def clearInterval_def)
  show ?thesis
    using a b c by simp
qed

text \<open>
  C8, as the code has it. The interval is cleared and the handle set to \<open>null\<close>
  whenever a round resolves: by \<open>handleAnswer\<close> on an unresolved round, and by the
  countdown callback when the time reaches zero. A new round releases nothing; but the
  "next" button is hidden from the start of a round until its resolution, so in every
  state reachable through the events of the page a new round starts only when no
  interval is active. Hence in every reachable state at most one interval is active,
  the one the handle holds.
\<close>

theorem one_countdown_at_a_time:
  assumes "reachable s"
  shows "card (intervals s) \<le> 1
       \<and> intervals s = set_option (timerInterval s)
       \<and> (\<not> answered s \<longrightarrow>
            intervals (snd (handleAnswer n cfg s)) = {}
            \<and> timerInterval (snd (handleAnswer n cfg s)) = None)
       \<and> (timeLeft s \<le> 1 \<longrightarrow>
            intervals (snd (timerCallback s)) = {}
            \<and> timerInterval (snd (timerCallback s)) = None)
       \<and> (\<not> nextBtnHidden s \<longrightarrow>
            intervals s = {} \<and> card (intervals (snd (startNewRound cfg s))) \<le> 1)"
proof -
  have i: "timer_inv s"
    using assms by (rule reachable_timer_inv)
  have n: "\<not> nextBtnHidden s \<longrightarrow>
            intervals s = {} \<and> card (intervals (snd (startNewRound cfg s))) \<le> 1"
  proof
    assume h: "\<not> nextBtnHidden s"
    then have t: "timerInterval s = None"
      using i by (simp add: timer_inv_def)
    then have "intervals s = {}"
      using i by (simp add: timer_inv_def)
    then show "intervals s = {} \<and> card (intervals (snd (startNewRound cfg s))) \<le> 1"
      using timer_inv_card [OF timer_inv_startNewRound [OF i t, of cfg]] by simp
  qed
  show ?thesis
    using timer_inv_card [OF i] i n handleAnswer_releases [OF i, of n cfg]
      timerCallback_releases [OF i]
    by (simp add: timer_inv_def)
qed

theorem one_countdown_at_a_time_witness:
  "reachable (snd (initializeGame defaultConfig (initialGame demoRandoms)))
   \<and> intervals (snd (initializeGame defaultConfig (initialGame demoRandoms))) = {1}
   \<and> card (intervals (snd (initializeGame defaultConfig (initialGame demoRandoms)))) \<le> 1
   \<and> \<not> answered (snd (initializeGame defaultConfig (initialGame demoRandoms)))
   \<and> intervals (snd (handleAnswer 3 defaultConfig
                       (snd (initializeGame defaultConfig (initialGame demoRandoms))))) = {}"
proof -
  let ?s1 = "snd (initializeGame defaultConfig (initialGame demoRandoms))"
  have r: "reachable ?s1"
    by (rule reachable.start)
  have a: "intervals ?s1 = {1}"
    using startNewRound_starts_timer [OF valid_random_initialGame_demo, of defaultConfig]
    by (simp add: initializeGame_def initialGame_def)
  have u: "\<not> answered ?s1"
    using startNewRound_timer [of defaultConfig "initialGame demoRandoms"]
    by (simp add: initializeGame_def)
  have c: "card (intervals ?s1) \<le> 1"
    using one_countdown_at_a_time [OF r, of 3 defaultConfig] by blast
  have h: "\<not> answered ?s1 \<longrightarrow> intervals (snd (handleAnswer 3 defaultConfig ?s1)) = {}"
    using one_countdown_at_a_time [OF r, of 3 defaultConfig] by blast
  show ?thesis
    using r a u c h by blast
qed

end
